theory Spec2Isabelle
  imports Main "HOL-Library.Log_Nat" "HOL-Library.Word"
begin

section \<open>Binary floating point as exact rationals\<close>

text \<open>
  The colour transforms of \<^verbatim>\<open>ambilight.py\<close> compute in IEEE binary32 (NumPy
  \<^verbatim>\<open>float32\<close>) and binary64 (Python \<^verbatim>\<open>float\<close>, NumPy \<^verbatim>\<open>float64\<close>). Every finite
  float is a rational number, and every operation returns the exact result rounded to the
  nearest representable value, ties to the even significand. The magnitudes that occur
  (between \<open>2 powi (-60)\<close> and \<open>2 ^ 20\<close>) are far inside the normal range of both formats,
  so only the precision is modelled: \<open>fl p\<close> rounds to a significand of \<open>p\<close> bits.
\<close>

definition round_half_even :: "rat \<Rightarrow> int" where
  "round_half_even x =
     (let f = \<lfloor>x\<rfloor>; d = x - of_int f
      in if d < 1/2 then f else if 1/2 < d then f + 1 else if even f then f else f + 1)"

text \<open>\<open>ilog2 x\<close> is the binary exponent of \<open>x \<noteq> 0\<close>: \<open>2 powi ilog2 x \<le> \<bar>x\<bar> < 2 powi (ilog2 x + 1)\<close>.\<close>

definition ilog2 :: "rat \<Rightarrow> int" where
  "ilog2 x =
     (let (a, b) = quotient_of x; e0 = bitlen \<bar>a\<bar> - bitlen b
      in if 2 powi e0 \<le> \<bar>x\<bar> then e0 else e0 - 1)"

text \<open>
  With binary exponent \<open>e\<close> and \<open>p\<close> bits, the representable values around \<open>x\<close> are the
  multiples of \<open>2 powi (e - p + 1)\<close>.
\<close>

definition round_at :: "nat \<Rightarrow> int \<Rightarrow> rat \<Rightarrow> rat" where
  "round_at p e x =
     (let u = 2 powi (e - int p + 1) in of_int (round_half_even (x / u)) * u)"

definition fl :: "nat \<Rightarrow> rat \<Rightarrow> rat" where
  "fl p x = (if x = 0 then 0 else round_at p (ilog2 x) x)"

definition f32 :: "rat \<Rightarrow> rat" where
  "f32 = fl 24"

definition f64 :: "rat \<Rightarrow> rat" where
  "f64 = fl 53"

text \<open>Python's \<^verbatim>\<open>int(x)\<close> and NumPy's \<^verbatim>\<open>astype(int)\<close> on a finite float: truncation toward zero.\<close>

definition py_int :: "rat \<Rightarrow> int" where
  "py_int x = (if 0 \<le> x then \<lfloor>x\<rfloor> else \<lceil>x\<rceil>)"

text \<open>
  An operation between a NumPy \<^verbatim>\<open>float32\<close> scalar and a Python number is computed in
  binary64 by NumPy 1 (value-based promotion) and in binary32 by NumPy 2 (the Python number
  is cast to \<^verbatim>\<open>float32\<close> first). The source does not fix the NumPy version, so the rule is a
  parameter of the model.
\<close>

datatype scalar_rule = Legacy | Weak

definition scalar_round :: "scalar_rule \<Rightarrow> rat \<Rightarrow> rat" where
  "scalar_round m = (case m of Legacy \<Rightarrow> f64 | Weak \<Rightarrow> f32)"

text \<open>
  NumPy's \<^verbatim>\<open>a % b\<close> on floats: the C \<^verbatim>\<open>fmod\<close> (exact), moved into the sign of \<open>b\<close> by one
  rounded addition.
\<close>

definition np_mod :: "(rat \<Rightarrow> rat) \<Rightarrow> rat \<Rightarrow> rat \<Rightarrow> rat" where
  "np_mod rnd a b =
     (let r = a - b * of_int (py_int (a / b))
      in if r = 0 then 0 else if (b < 0) \<noteq> (r < 0) then rnd (r + b) else r)"

section \<open>Colour transforms\<close>

type_synonym color = "int \<times> int \<times> int"

text \<open>
  An image in RGB mode as \<^verbatim>\<open>np.array(img)\<close> holds it: rows of pixels, every channel a
  \<^verbatim>\<open>uint8\<close>; \<open>img ! y ! x\<close> is the pixel in row \<open>y\<close>, column \<open>x\<close>.
\<close>

type_synonym pixel = "8 word \<times> 8 word \<times> 8 word"
type_synonym image = "pixel list list"

definition red :: "pixel \<Rightarrow> int" where
  "red px = (case px of (r, g, b) \<Rightarrow> uint r)"

definition green :: "pixel \<Rightarrow> int" where
  "green px = (case px of (r, g, b) \<Rightarrow> uint g)"

definition blue :: "pixel \<Rightarrow> int" where
  "blue px = (case px of (r, g, b) \<Rightarrow> uint b)"

text \<open>
  \<^verbatim>\<open>edges.mean(axis=0).astype(int)\<close> for one channel: NumPy adds the values in binary64 (the
  partial sums are integers below \<open>2 ^ 53\<close>, hence exact), divides by the count, and the cast
  truncates.
\<close>

definition np_mean_int :: "int list \<Rightarrow> int" where
  "np_mean_int xs = py_int (f64 (f64 (of_int (sum_list xs)) / of_nat (length xs)))"

text \<open>
  \<^verbatim>\<open>extract_edge_average\<close>. The resampling \<^verbatim>\<open>img.resize((80, 45))\<close> belongs to the imaging
  library and is the parameter \<open>resize\<close>. A slice \<^verbatim>\<open>a[-5:]\<close> of a sequence shorter than 5 is
  the whole sequence, which is what \<open>drop (length a - 5) a\<close> gives on naturals.
\<close>

definition extract_edge_average :: "(image \<Rightarrow> image) \<Rightarrow> image \<Rightarrow> color" where
  "extract_edge_average resize img =
     (let img_array = resize img;
          edge_thickness = 5;
          top = take edge_thickness img_array;
          bottom = drop (length img_array - edge_thickness) img_array;
          left = map (take edge_thickness) img_array;
          right = map (\<lambda>row. drop (length row - edge_thickness) row) img_array;
          edges = concat top @ concat bottom @ concat left @ concat right
      in (np_mean_int (map red edges), np_mean_int (map green edges),
          np_mean_int (map blue edges)))"

text \<open>
  \<^verbatim>\<open>enhance_color\<close>. \<open>rgb\<close> is a \<^verbatim>\<open>float32\<close> array, so \<open>maxc\<close>, \<open>minc\<close>, \<open>delta\<close>, the first \<open>s\<close>
  and the hue quotient are binary32; every later operation mixes such a scalar with a
  Python number and is rounded by \<open>scalar_round m\<close>. \<open>sat_boost\<close> and \<open>val_boost\<close> are Python
  floats. The inputs are channels in \<open>[0, 255]\<close>, where \<open>maxc\<close> is zero only if \<open>delta\<close> is.
\<close>

definition enhance_color :: "scalar_rule \<Rightarrow> int \<Rightarrow> int \<Rightarrow> int \<Rightarrow> rat \<Rightarrow> rat \<Rightarrow> color" where
  "enhance_color m r g b sat_boost val_boost =
     (let rnd = scalar_round m;
          rgb0 = f32 (f32 (of_int r) / 255);
          rgb1 = f32 (f32 (of_int g) / 255);
          rgb2 = f32 (f32 (of_int b) / 255);
          maxc = max rgb0 (max rgb1 rgb2);
          minc = min rgb0 (min rgb1 rgb2);
          v = maxc;
          delta = f32 (maxc - minc);
          (h, s) =
            (if delta = 0 then (0, 0)
             else
               let s = f32 (delta / maxc);
                   h = (if maxc = rgb0 then np_mod rnd (f32 (f32 (rgb1 - rgb2) / delta)) 6
                        else if maxc = rgb1 then rnd (f32 (f32 (rgb2 - rgb0) / delta) + 2)
                        else rnd (f32 (f32 (rgb0 - rgb1) / delta) + 4))
               in (rnd (h / 6), s));
          s = max 0 (min 1 (rnd (s * rnd sat_boost)));
          v = max 0 (min 1 (rnd (v * rnd val_boost)));
          (r2, g2, b2) =
            (if s = 0 then (v, v, v)
             else
               let h6 = rnd (h * 6);
                   i = py_int h6;
                   f = rnd (h6 - of_int i);
                   p = rnd (v * rnd (1 - s));
                   q = rnd (v * rnd (1 - rnd (s * f)));
                   t = rnd (v * rnd (1 - rnd (s * rnd (1 - f))));
                   i = i mod 6
               in if i = 0 then (v, t, p)
                  else if i = 1 then (q, v, p)
                  else if i = 2 then (p, v, t)
                  else if i = 3 then (p, q, v)
                  else if i = 4 then (t, p, v)
                  else (v, p, q))
      in (py_int (rnd (r2 * 255)), py_int (rnd (g2 * 255)), py_int (rnd (b2 * 255))))"

text \<open>
  What \<^verbatim>\<open>enhance_color\<close> computes for each channel on the path \<^verbatim>\<open>delta == 0\<close>,
  \<^verbatim>\<open>s == 0.0\<close>, which an input with three equal channels \<open>c\<close> takes.
\<close>

definition achromatic_channel :: "scalar_rule \<Rightarrow> int \<Rightarrow> rat \<Rightarrow> int" where
  "achromatic_channel m c val_boost =
     py_int (scalar_round m (max 0 (min 1 (scalar_round m
        (f32 (f32 (of_int c) / 255) * scalar_round m val_boost))) * 255))"

text \<open>The default arguments \<^verbatim>\<open>sat_boost=1.4\<close> and \<^verbatim>\<open>val_boost=1.1\<close>, as binary64 literals.\<close>

definition sat_boost_default :: rat where
  "sat_boost_default = f64 (14 / 10)"

definition val_boost_default :: rat where
  "val_boost_default = f64 (11 / 10)"

text \<open>
  \<^verbatim>\<open>smooth_color\<close>: the body of the generator, \<^verbatim>\<open>int(alpha * n + (1 - alpha) * o)\<close>, in
  binary64, for each pair of channels that \<^verbatim>\<open>zip\<close> yields. Both arguments are 3-tuples at
  the call site.
\<close>

definition blend :: "rat \<Rightarrow> int \<Rightarrow> int \<Rightarrow> int" where
  "blend alpha n old =
     py_int (f64 (f64 (alpha * f64 (of_int n)) + f64 (f64 (1 - alpha) * f64 (of_int old))))"

definition smooth_color :: "rat \<Rightarrow> color \<Rightarrow> color \<Rightarrow> color" where
  "smooth_color alpha new_color old_color =
     (case (new_color, old_color) of
        ((n0, n1, n2), (o0, o1, o2)) \<Rightarrow> (blend alpha n0 o0, blend alpha n1 o1, blend alpha n2 o2))"

section \<open>The control loop\<close>

text \<open>
  What one pass of \<^verbatim>\<open>while True\<close> in \<^verbatim>\<open>main\<close> does to the outside world, in order. The two
  notices and the colour readout are the \<^verbatim>\<open>print\<close> calls; \<open>Datagram\<close> is the \<^verbatim>\<open>sendto\<close> of the
  \<^verbatim>\<open>setPilot\<close> command; \<open>Sleep\<close> carries the seconds passed to \<^verbatim>\<open>time.sleep\<close>.
\<close>

datatype event =
    Waiting_notice
  | Detected_notice
  | Datagram int int int
  | Send_failed_notice
  | Color_readout int int int
  | Sleep rat

record loop_state =
  last_color :: color
  no_vlc_count :: int

text \<open>
  What the outside world answers during one pass: the result of \<^verbatim>\<open>get_vlc_geometry\<close> and of
  \<^verbatim>\<open>capture_window\<close> (\<open>None\<close> as in the source), whether the socket calls of
  \<^verbatim>\<open>send_color_to_wiz\<close> go through, and \<^verbatim>\<open>time.time() - start_time\<close>, a binary64 number of
  seconds.
\<close>

record cycle_input =
  geometry :: "string option"
  capture :: "image option"
  send_ok :: bool
  elapsed :: rat

definition FPS :: rat where
  "FPS = 20"

text \<open>\<^verbatim>\<open>frame_delay = 1.0 / FPS\<close> is a binary64 quotient.\<close>

definition frame_delay :: rat where
  "frame_delay = f64 (1 / FPS)"

definition initial_state :: loop_state where
  "initial_state = \<lparr>last_color = (0, 0, 0), no_vlc_count = 0\<rparr>"

definition send_color_to_wiz :: "int \<Rightarrow> int \<Rightarrow> int \<Rightarrow> bool \<Rightarrow> event list \<times> bool" where
  "send_color_to_wiz r g b ok =
     (if ok then ([Datagram r g b], True) else ([Send_failed_notice], False))"

text \<open>\<^verbatim>\<open>if not geometry\<close> holds for \<^verbatim>\<open>None\<close> and for the empty string.\<close>

definition not_geometry :: "string option \<Rightarrow> bool" where
  "not_geometry g = (case g of None \<Rightarrow> True | Some s \<Rightarrow> s = [])"

definition main_iteration ::
  "scalar_rule \<Rightarrow> (image \<Rightarrow> image) \<Rightarrow> loop_state \<Rightarrow> cycle_input \<Rightarrow> loop_state \<times> event list" where
  "main_iteration m resize st inp =
     (if not_geometry (geometry inp) then
        let n = no_vlc_count st + 1
        in (st\<lparr>no_vlc_count := n\<rparr>,
            (if n mod 10 = 1 then [Waiting_notice] else []) @ [Sleep 1])
      else
        let (st1, ev1) =
              (if 0 < no_vlc_count st then (st\<lparr>no_vlc_count := 0\<rparr>, [Detected_notice])
               else (st, []))
        in case capture inp of
             None \<Rightarrow> (st1, ev1 @ [Sleep frame_delay])
           | Some img \<Rightarrow>
               let (r, g, b) = extract_edge_average resize img;
                   (r, g, b) = smooth_color (3 / 4) (r, g, b) (last_color st1);
                   (r, g, b) = enhance_color m r g b sat_boost_default val_boost_default;
                   (ev2, sent) = send_color_to_wiz r g b (send_ok inp);
                   ev3 = (if sent then [Color_readout r g b] else [])
               in (st1\<lparr>last_color := (r, g, b)\<rparr>,
                   ev1 @ ev2 @ ev3 @ [Sleep (max 0 (f64 (frame_delay - elapsed inp)))]))"

text \<open>
  The loop never ends by itself; \<open>main_loop\<close> runs it for as many passes as there are
  recorded answers and returns the state and everything emitted so far.
\<close>

fun main_loop ::
  "scalar_rule \<Rightarrow> (image \<Rightarrow> image) \<Rightarrow> loop_state \<Rightarrow> cycle_input list \<Rightarrow> loop_state \<times> event list" where
  "main_loop m resize st [] = (st, [])"
| "main_loop m resize st (inp # inps) =
     (let (st1, ev) = main_iteration m resize st inp;
          (st2, evs) = main_loop m resize st1 inps
      in (st2, ev @ evs))"

text \<open>
  The number of passes at the end of a history in which the window was not found, one
  after the other: the consecutive misses so far.
\<close>

definition consecutive_misses :: "cycle_input list \<Rightarrow> int" where
  "consecutive_misses inps =
     int (length (takeWhile (\<lambda>inp. not_geometry (geometry inp)) (rev inps)))"

text \<open>A pass that takes a frame: the window is found and the capture succeeds.\<close>

definition streams :: "cycle_input \<Rightarrow> bool" where
  "streams inp = (\<not> not_geometry (geometry inp) \<and> capture inp \<noteq> None)"

text \<open>The three stages of one streaming pass, as \<^verbatim>\<open>main\<close> chains them.\<close>

definition pre_enhancement :: "(image \<Rightarrow> image) \<Rightarrow> color \<Rightarrow> image \<Rightarrow> color" where
  "pre_enhancement resize prev img = smooth_color (3 / 4) (extract_edge_average resize img) prev"

definition enhanced :: "scalar_rule \<Rightarrow> color \<Rightarrow> color" where
  "enhanced m c = (case c of (r, g, b) \<Rightarrow> enhance_color m r g b sat_boost_default val_boost_default)"

text \<open>
  The frames of a history: the images of the passes that take one, in order. And what one
  such pass makes of the previous colour: the edge average of the frame is smoothed against
  it, and the smoothed colour is enhanced.
\<close>

definition frames :: "cycle_input list \<Rightarrow> image list" where
  "frames inps =
     concat (map (\<lambda>inp. if not_geometry (geometry inp) then []
                        else case capture inp of None \<Rightarrow> [] | Some img \<Rightarrow> [img]) inps)"

definition cycle_color :: "scalar_rule \<Rightarrow> (image \<Rightarrow> image) \<Rightarrow> color \<Rightarrow> image \<Rightarrow> color" where
  "cycle_color m resize prev img =
     enhanced m (smooth_color (3 / 4) (extract_edge_average resize img) prev)"

section \<open>The discovery script\<close>















section \<open>The specification's wording\<close>

text \<open>
  The smoothing formula as the specification words it: the real-valued blend with
  \<open>\<alpha> = 0.75\<close>, rounded to the nearest integer.
\<close>

definition spec_round_blend :: "int \<Rightarrow> int \<Rightarrow> int" where
  "spec_round_blend n old = round (3 / 4 * rat_of_int n + 1 / 4 * rat_of_int old)"

text \<open>
  The edge region as the specification words it, for an image of 45 rows and 80 columns:
  the top 5 rows, the bottom 5 rows, the left 5 columns and the right 5 columns, a pixel
  counted once for every band it lies in; and the mean over these 1250 samples, truncated.
\<close>

definition band_sum :: "(pixel \<Rightarrow> int) \<Rightarrow> image \<Rightarrow> int" where
  "band_sum ch img =
     (\<Sum>y = 0..<5. \<Sum>x = 0..<80. ch (img ! y ! x)) +
     (\<Sum>y = 40..<45. \<Sum>x = 0..<80. ch (img ! y ! x)) +
     (\<Sum>y = 0..<45. \<Sum>x = 0..<5. ch (img ! y ! x)) +
     (\<Sum>y = 0..<45. \<Sum>x = 75..<80. ch (img ! y ! x))"

definition spec_edge_average :: "image \<Rightarrow> color" where
  "spec_edge_average img =
     (py_int (rat_of_int (band_sum red img) / 1250),
      py_int (rat_of_int (band_sum green img) / 1250),
      py_int (rat_of_int (band_sum blue img) / 1250))"

definition is_80x45 :: "image \<Rightarrow> bool" where
  "is_80x45 img = (length img = 45 \<and> list_all (\<lambda>row. length row = 80) img)"

text \<open>
  The achromatic case as the specification words it: the value \<open>c\<close> scaled by 1.1, clamped
  to 255, converted to an integer.
\<close>

definition spec_boosted_value :: "int \<Rightarrow> int" where
  "spec_boosted_value c = py_int (min 255 (11 / 10 * rat_of_int c))"

section \<open>Facts about rounding\<close>

lemma round_half_even_of_int: "round_half_even (of_int n) = n"
  by (simp add: round_half_even_def)

lemma round_half_even_error: "\<bar>of_int (round_half_even x) - x\<bar> \<le> 1/2"
proof -
  have "of_int \<lfloor>x\<rfloor> \<le> x" and "x < of_int \<lfloor>x\<rfloor> + 1" by linarith+
  then show ?thesis
    unfolding round_half_even_def Let_def by (simp add: abs_le_iff)
qed

lemma pow2_bitlen_lower: "0 < n \<Longrightarrow> (2::rat) powi (bitlen n - 1) \<le> of_int n"
proof -
  assume n: "0 < n"
  then have b: "0 < bitlen n"
    using bitlen_eq_zero_iff[of n] bitlen_nonneg[of n] by linarith
  from bitlen_bounds[OF n] have "2 ^ nat (bitlen n - 1) \<le> n" by simp
  then have "(of_int (2 ^ nat (bitlen n - 1)) :: rat) \<le> of_int n"
    by (simp only: of_int_le_iff)
  then show ?thesis using b by (simp add: power_int_def)
qed

lemma pow2_bitlen_upper: "0 < n \<Longrightarrow> of_int n < (2::rat) powi (bitlen n)"
proof -
  assume n: "0 < n"
  then have b: "0 < bitlen n"
    using bitlen_eq_zero_iff[of n] bitlen_nonneg[of n] by linarith
  from bitlen_bounds[OF n] have "n < 2 ^ nat (bitlen n)" by simp
  then have "(of_int n :: rat) < of_int (2 ^ nat (bitlen n))"
    by (simp only: of_int_less_iff)
  then show ?thesis using b by (simp add: power_int_def)
qed

lemma ilog2_lower:
  assumes "x \<noteq> 0"
  shows "2 powi ilog2 x \<le> \<bar>x\<bar>"
proof -
  obtain a b where q: "quotient_of x = (a, b)" by (cases "quotient_of x")
  then have b: "0 < b" and x: "x = of_int a / of_int b"
    using quotient_of_denom_pos quotient_of_div by blast+
  with assms have a: "0 < \<bar>a\<bar>" by auto
  have ax: "\<bar>x\<bar> = of_int \<bar>a\<bar> / of_int b" using b x by simp
  show ?thesis
  proof (cases "2 powi (bitlen \<bar>a\<bar> - bitlen b) \<le> \<bar>x\<bar>")
    case True
    then show ?thesis by (simp add: ilog2_def q)
  next
    case False
    have l: "(2::rat) powi (bitlen \<bar>a\<bar> - 1) \<le> of_int \<bar>a\<bar>" by (rule pow2_bitlen_lower[OF a])
    have u: "of_int b < (2::rat) powi (bitlen b)" by (rule pow2_bitlen_upper[OF b])
    have "(2::rat) powi (bitlen \<bar>a\<bar> - bitlen b - 1) = 2 powi (bitlen \<bar>a\<bar> - 1) / 2 powi (bitlen b)"
      by (simp add: power_int_diff)
    also have "\<dots> \<le> of_int \<bar>a\<bar> / 2 powi (bitlen b)"
      using l by (simp add: divide_right_mono)
    also have "\<dots> \<le> of_int \<bar>a\<bar> / of_int b"
      using u b a by (intro divide_left_mono) (auto simp: less_imp_le)
    finally show ?thesis using False by (simp add: ilog2_def q ax)
  qed
qed

lemma ilog2_upper:
  assumes "x \<noteq> 0"
  shows "\<bar>x\<bar> < 2 powi (ilog2 x + 1)"
proof -
  obtain a b where q: "quotient_of x = (a, b)" by (cases "quotient_of x")
  then have b: "0 < b" and x: "x = of_int a / of_int b"
    using quotient_of_denom_pos quotient_of_div by blast+
  with assms have a: "0 < \<bar>a\<bar>" by auto
  have ax: "\<bar>x\<bar> = of_int \<bar>a\<bar> / of_int b" using b x by simp
  show ?thesis
  proof (cases "2 powi (bitlen \<bar>a\<bar> - bitlen b) \<le> \<bar>x\<bar>")
    case False
    then show ?thesis by (simp add: ilog2_def q)
  next
    case True
    have u: "of_int \<bar>a\<bar> < (2::rat) powi (bitlen \<bar>a\<bar>)" by (rule pow2_bitlen_upper[OF a])
    have l: "(2::rat) powi (bitlen b - 1) \<le> of_int b" by (rule pow2_bitlen_lower[OF b])
    have "of_int \<bar>a\<bar> / (of_int b :: rat) < 2 powi (bitlen \<bar>a\<bar>) / of_int b"
      using u b by (simp add: divide_strict_right_mono)
    also have "\<dots> \<le> 2 powi (bitlen \<bar>a\<bar>) / 2 powi (bitlen b - 1)"
      using l b by (intro divide_left_mono) auto
    also have "\<dots> = 2 powi (bitlen \<bar>a\<bar> - bitlen b + 1)"
      by (simp add: power_int_diff power_int_add)
    finally show ?thesis using True by (simp add: ilog2_def q ax)
  qed
qed

lemma fl_error:
  assumes "x \<noteq> 0"
  shows "\<bar>fl p x - x\<bar> \<le> \<bar>x\<bar> * 2 powi (- int p)"
proof -
  define u :: rat where "u = 2 powi (ilog2 x - int p + 1)"
  have u: "0 < u" by (simp add: u_def)
  have "fl p x = of_int (round_half_even (x / u)) * u"
    using assms unfolding fl_def round_at_def Let_def u_def by simp
  then have "fl p x - x = (of_int (round_half_even (x / u)) - x / u) * u"
    using u by (simp add: field_simps)
  then have "\<bar>fl p x - x\<bar> = \<bar>of_int (round_half_even (x / u)) - x / u\<bar> * u"
    using u by (simp add: abs_mult)
  also have "\<dots> \<le> 1/2 * u"
    using round_half_even_error[of "x / u"] u by (intro mult_right_mono) auto
  also have "\<dots> = 2 powi ilog2 x * 2 powi (- int p)"
    by (simp add: u_def power_int_add power_int_diff power_int_minus field_simps)
  also have "\<dots> \<le> \<bar>x\<bar> * 2 powi (- int p)"
    using ilog2_lower[OF assms] by (intro mult_right_mono) auto
  finally show ?thesis .
qed

lemma fl_exact:
  assumes "x = of_int m * 2 powi k" and "\<bar>m\<bar> < 2 ^ p"
  shows "fl p x = x"
proof (cases "x = 0")
  case True then show ?thesis by (simp add: fl_def)
next
  case False
  define e where "e = ilog2 x"
  have "2 powi e \<le> \<bar>x\<bar>" unfolding e_def by (rule ilog2_lower[OF False])
  also have "\<bar>x\<bar> = of_int \<bar>m\<bar> * 2 powi k" by (simp add: assms(1) abs_mult)
  also have "\<dots> < 2 ^ p * 2 powi k"
  proof -
    have "(of_int \<bar>m\<bar> :: rat) < of_int (2 ^ p)" using assms(2) by (simp only: of_int_less_iff)
    then show ?thesis by (intro mult_strict_right_mono) auto
  qed
  also have "\<dots> = 2 powi (int p + k)" by (simp add: power_int_add)
  finally have lt: "(2::rat) powi e < 2 powi (int p + k)" .
  have "e < int p + k"
  proof (rule ccontr)
    assume "\<not> e < int p + k"
    then have "(2::rat) powi (int p + k) \<le> 2 powi e"
      by (intro power_int_increasing) auto
    with lt show False by simp
  qed
  then have "0 \<le> k - (e - int p + 1)" by simp
  then obtain j :: nat where j: "k - (e - int p + 1) = int j"
    using nonneg_int_cases by blast
  have "x / 2 powi (e - int p + 1) = of_int m * 2 powi (k - (e - int p + 1))"
    by (simp add: assms(1) power_int_diff)
  also have "\<dots> = of_int (m * 2 ^ j)" by (simp add: j)
  finally have "round_half_even (x / 2 powi (e - int p + 1)) = m * 2 ^ j"
    by (simp only: round_half_even_of_int)
  then have "fl p x = of_int (m * 2 ^ j) * 2 powi (e - int p + 1)"
    using False by (simp add: fl_def round_at_def Let_def e_def)
  also have "\<dots> = of_int m * (2 powi (int j) * 2 powi (e - int p + 1))" by simp
  also have "2 powi (int j) * (2::rat) powi (e - int p + 1) = 2 powi k"
    unfolding j[symmetric] by (simp add: power_int_add[symmetric])
  finally show ?thesis by (simp add: assms(1))
qed

section \<open>Smoothing\<close>

text \<open>
  With \<open>\<alpha> = 0.75\<close> and channels in \<open>[0, 255]\<close> every intermediate value of the blend is a
  multiple of a quarter below \<open>2 ^ 53\<close>, so binary64 computes it exactly.
\<close>

lemma f64_int: "\<bar>m\<bar> < 2 ^ 53 \<Longrightarrow> f64 (of_int m) = of_int m"
  unfolding f64_def by (rule fl_exact[where m = m and k = 0]) simp_all

lemma f64_quarters: "\<bar>m\<bar> < 2 ^ 53 \<Longrightarrow> f64 (of_int m / 4) = of_int m / 4"
  unfolding f64_def by (rule fl_exact[where m = m and k = "- 2"]) (simp_all add: power_int_minus)

lemma py_int_quarters: "0 \<le> m \<Longrightarrow> py_int (of_int m / 4) = m div 4"
proof -
  assume "0 \<le> m"
  then have "(0::rat) \<le> of_int m / 4" by simp
  moreover have "\<lfloor>rat_of_int m / 4\<rfloor> = m div 4"
    using floor_divide_of_int_eq[of m 4, where ?'a = rat] by simp
  ultimately show ?thesis by (simp add: py_int_def)
qed

lemma blend_three_quarters:
  assumes "0 \<le> n" "n \<le> 255" "0 \<le> old" "old \<le> 255"
  shows "blend (3 / 4) n old = (3 * n + old) div 4"
proof -
  have n: "f64 (of_int n) = of_int n" and o: "f64 (of_int old) = of_int old"
    using assms by (auto intro!: f64_int)
  have a: "f64 (3 / 4 * rat_of_int n) = of_int (3 * n) / 4"
    using f64_quarters[of "3 * n"] assms by simp
  have q: "f64 (1 - 3 / 4) = 1 / 4"
    using f64_quarters[of 1] by simp
  have b: "f64 (1 / 4 * rat_of_int old) = of_int old / 4"
    using f64_quarters[of old] assms by simp
  have s: "f64 (of_int (3 * n) / 4 + of_int old / 4) = of_int (3 * n + old) / 4"
    using f64_quarters[of "3 * n + old"] assms by (simp add: add_divide_distrib)
  have "blend (3 / 4) n old = py_int (of_int (3 * n + old) / 4)"
    unfolding blend_def n o a q b s ..
  also have "\<dots> = (3 * n + old) div 4"
    using assms by (intro py_int_quarters) simp
  finally show ?thesis .
qed

lemma floor_rat_numeral:
  "\<lfloor>(numeral a :: rat) / numeral b\<rfloor> = numeral a div numeral b"
  using floor_divide_of_int_eq[of "numeral a" "numeral b", where ?'a = rat] by simp

lemma blend_floor:
  assumes "0 \<le> n" "n \<le> 255" "0 \<le> old" "old \<le> 255"
  shows "blend (3 / 4) n old = \<lfloor>3 / 4 * rat_of_int n + 1 / 4 * rat_of_int old\<rfloor>"
proof -
  have "3 / 4 * rat_of_int n + 1 / 4 * rat_of_int old = rat_of_int (3 * n + old) / rat_of_int 4"
    by (simp add: field_simps)
  then have "\<lfloor>3 / 4 * rat_of_int n + 1 / 4 * rat_of_int old\<rfloor> = (3 * n + old) div 4"
    by (simp only: floor_divide_of_int_eq)
  then show ?thesis by (simp only: blend_three_quarters[OF assms])
qed

text \<open>
  Claim C3, as stated: for channels in \<open>[0, 255]\<close> smoothing returns, per channel, the blend
  \<open>0.75 * new + 0.25 * previous\<close> rounded to the nearest integer. It fails for new colour
  \<open>(1, 0, 0)\<close> and previous colour black: the blend of the red channel is 0.75, the nearest
  integer is 1, and \<^verbatim>\<open>int(0.75)\<close> is 0.
\<close>

theorem smooth_color_rounding_counterexample:
  "smooth_color (3 / 4) (1, 0, 0) (0, 0, 0) \<noteq>
     (spec_round_blend 1 0, spec_round_blend 0 0, spec_round_blend 0 0)"
  by (simp add: smooth_color_def blend_three_quarters spec_round_blend_def round_def
      floor_rat_numeral)

text \<open>
  Claim C3, amended: for channels in \<open>[0, 255]\<close> smoothing returns, per channel, the blend
  \<open>0.75 * new + 0.25 * previous\<close> truncated to an integer, that is, rounded down.
\<close>

theorem smooth_color_truncates:
  assumes "0 \<le> n0" "n0 \<le> 255" "0 \<le> n1" "n1 \<le> 255" "0 \<le> n2" "n2 \<le> 255"
    and "0 \<le> o0" "o0 \<le> 255" "0 \<le> o1" "o1 \<le> 255" "0 \<le> o2" "o2 \<le> 255"
  shows "smooth_color (3 / 4) (n0, n1, n2) (o0, o1, o2) =
           (\<lfloor>3 / 4 * rat_of_int n0 + 1 / 4 * rat_of_int o0\<rfloor>,
            \<lfloor>3 / 4 * rat_of_int n1 + 1 / 4 * rat_of_int o1\<rfloor>,
            \<lfloor>3 / 4 * rat_of_int n2 + 1 / 4 * rat_of_int o2\<rfloor>)"
  by (simp only: smooth_color_def prod.case blend_floor assms)

theorem smooth_color_truncates_witness:
  "smooth_color (3 / 4) (1, 2, 255) (0, 0, 0) = (0, 1, 191)"
  using smooth_color_truncates[of 1 2 255 0 0 0] by (simp add: floor_rat_numeral)

text \<open>
  Claim C10: a steady signal is a fixed point of smoothing: for every colour \<open>c\<close> with
  channels in \<open>[0, 255]\<close>, smoothing \<open>c\<close> against \<open>c\<close> with \<open>\<alpha> = 0.75\<close> returns \<open>c\<close>.
\<close>

theorem smooth_color_fixed_point:
  assumes "0 \<le> r" "r \<le> 255" "0 \<le> g" "g \<le> 255" "0 \<le> b" "b \<le> 255"
  shows "smooth_color (3 / 4) (r, g, b) (r, g, b) = (r, g, b)"
  using assms by (simp add: smooth_color_def blend_three_quarters)

theorem smooth_color_fixed_point_witness:
  "smooth_color (3 / 4) (0, 128, 255) (0, 128, 255) = (0, 128, 255)"
  using smooth_color_fixed_point[of 0 128 255] by simp

section \<open>The edge average\<close>

text \<open>
  The mean of at most \<open>2 ^ 12\<close> channel values: the binary64 quotient lies so close to the
  exact one that truncating it gives the integer quotient.
\<close>

lemma py_int_f64_div:
  assumes "0 \<le> S" "S < 2 ^ 40" "0 < n" "n \<le> 2 ^ 12"
  shows "py_int (f64 (rat_of_int S / rat_of_int n)) = S div n"
proof -
  define q r where "q = S div n" and "r = S mod n"
  have S: "S = q * n + r" by (simp add: q_def r_def)
  have r: "0 \<le> r" "r < n" using assms(3) by (simp_all add: r_def)
  have q: "0 \<le> q" using assms by (simp add: q_def pos_imp_zdiv_nonneg_iff)
  define x where "x = rat_of_int S / rat_of_int n"
  have n0: "(0::rat) < of_int n" using assms(3) by simp
  have x: "x = of_int q + of_int r / of_int n"
    using n0 by (simp add: x_def S field_simps)
  show ?thesis
  proof (cases "r = 0")
    case True
    then have "x = of_int q * 2 powi 0" by (simp add: x)
    moreover have "\<bar>q\<bar> < 2 ^ 53"
    proof -
      have "q * 1 \<le> q * n" using q assms(3) by (intro mult_left_mono) simp_all
      then have "q \<le> S" using S r by simp
      with assms(2) q show ?thesis by simp
    qed
    ultimately have "f64 x = x" unfolding f64_def by (rule fl_exact)
    then show ?thesis using True q by (simp add: x_def[symmetric] x py_int_def q_def)
  next
    case False
    with r have r1: "1 \<le> r" "r \<le> n - 1" by simp_all
    have lo: "of_int q + 1 / of_int n \<le> x"
      using r1 n0 by (simp add: x divide_right_mono)
    have hi: "x \<le> of_int q + 1 - 1 / of_int n"
    proof -
      have "rat_of_int r / of_int n \<le> of_int (n - 1) / of_int n"
        using r1 n0 by (intro divide_right_mono) simp_all
      also have "\<dots> = 1 - 1 / of_int n" using n0 by (simp add: field_simps)
      finally show ?thesis by (simp add: x)
    qed
    have q0: "(0::rat) \<le> of_int q" using q by simp
    have "0 < 1 / rat_of_int n" using n0 by simp
    with lo q0 have xpos: "0 < x" by linarith
    have xS: "x \<le> of_int S"
    proof -
      have "rat_of_int S / of_int n \<le> of_int S / 1"
        using assms by (intro divide_left_mono) simp_all
      then show ?thesis by (simp add: x_def)
    qed
    have "\<bar>f64 x - x\<bar> \<le> \<bar>x\<bar> * 2 powi (- int 53)"
      unfolding f64_def using xpos by (intro fl_error) simp
    also have "\<dots> \<le> of_int S * 2 powi (- int 53)"
      using xS xpos by (intro mult_right_mono) simp_all
    also have "\<dots> < 2 ^ 40 * 2 powi (- int 53)"
    proof -
      have "rat_of_int S < of_int (2 ^ 40)" using assms(2) by (simp only: of_int_less_iff)
      then show ?thesis by (intro mult_strict_right_mono) simp_all
    qed
    also have "\<dots> = 1 / 2 ^ 13" by (simp add: power_int_minus)
    also have "\<dots> < 1 / of_int n"
    proof -
      have "rat_of_int n \<le> of_int (2 ^ 12)" using assms(4) by (simp only: of_int_le_iff)
      then have "rat_of_int n < 2 ^ 13" by simp
      then show ?thesis using n0 by (intro divide_strict_left_mono) simp_all
    qed
    finally have err: "\<bar>f64 x - x\<bar> < 1 / of_int n" .
    have a: "of_int q < f64 x" using err lo by (simp add: abs_less_iff)
    have b: "f64 x < of_int q + 1" using err hi by (simp add: abs_less_iff)
    have "\<lfloor>f64 x\<rfloor> = q" using a b by (intro floor_unique) simp_all
    moreover have "0 \<le> f64 x" using a q0 by linarith
    ultimately show ?thesis by (simp add: py_int_def x_def q_def)
  qed
qed

lemma sum_list_map_nth: "sum_list (map f xs) = (\<Sum>i = 0..<length xs. f (xs ! i))"
  by (simp add: sum_list_sum_nth)

lemma sum_list_concat_rows:
  "sum_list (map f (concat rows)) =
     (\<Sum>y = 0..<length rows. \<Sum>x = 0..<length (rows ! y). f (rows ! y ! x))"
proof -
  have "sum_list (map f (concat rows)) = sum_list (map (\<lambda>row. sum_list (map f row)) rows)"
    by (induction rows) simp_all
  also have "\<dots> = (\<Sum>y = 0..<length rows. sum_list (map f (rows ! y)))"
    by (rule sum_list_map_nth)
  also have "\<dots> = (\<Sum>y = 0..<length rows. \<Sum>x = 0..<length (rows ! y). f (rows ! y ! x))"
    by (simp only: sum_list_map_nth)
  finally show ?thesis .
qed

lemma is_80x45_rows: "is_80x45 img \<Longrightarrow> y < 45 \<Longrightarrow> length (img ! y) = 80"
  by (simp add: is_80x45_def list_all_length)

lemma top_sum:
  assumes "is_80x45 img"
  shows "sum_list (map f (concat (take 5 img))) = (\<Sum>y = 0..<5. \<Sum>x = 0..<80. f (img ! y ! x))"
proof -
  have len: "length img = 45" using assms by (simp add: is_80x45_def)
  have "sum_list (map f (concat (take 5 img))) =
        (\<Sum>y = 0..<5. \<Sum>x = 0..<length (take 5 img ! y). f (take 5 img ! y ! x))"
    by (simp add: sum_list_concat_rows len)
  also have "\<dots> = (\<Sum>y = 0..<5. \<Sum>x = 0..<80. f (img ! y ! x))"
    by (rule sum.cong) (simp_all add: is_80x45_rows[OF assms])
  finally show ?thesis .
qed

lemma bottom_sum:
  assumes "is_80x45 img"
  shows "sum_list (map f (concat (drop (length img - 5) img))) =
         (\<Sum>y = 40..<45. \<Sum>x = 0..<80. f (img ! y ! x))"
proof -
  have len: "length img = 45" using assms by (simp add: is_80x45_def)
  have "sum_list (map f (concat (drop (length img - 5) img))) =
        (\<Sum>y = 0..<5. \<Sum>x = 0..<length (drop 40 img ! y). f (drop 40 img ! y ! x))"
    by (simp add: sum_list_concat_rows len)
  also have "\<dots> = (\<Sum>y = 0..<5. \<Sum>x = 0..<80. f (img ! (y + 40) ! x))"
    by (rule sum.cong) (simp_all add: is_80x45_rows[OF assms] len add.commute)
  also have "\<dots> = (\<Sum>y = 0 + 40..<5 + 40. \<Sum>x = 0..<80. f (img ! y ! x))"
    by (rule sum.shift_bounds_nat_ivl[symmetric])
  finally show ?thesis by simp
qed

lemma left_sum:
  assumes "is_80x45 img"
  shows "sum_list (map f (concat (map (take 5) img))) =
         (\<Sum>y = 0..<45. \<Sum>x = 0..<5. f (img ! y ! x))"
proof -
  have len: "length img = 45" using assms by (simp add: is_80x45_def)
  have "sum_list (map f (concat (map (take 5) img))) =
        (\<Sum>y = 0..<45. \<Sum>x = 0..<length (map (take 5) img ! y). f (map (take 5) img ! y ! x))"
    by (simp add: sum_list_concat_rows len)
  also have "\<dots> = (\<Sum>y = 0..<45. \<Sum>x = 0..<5. f (img ! y ! x))"
    by (rule sum.cong) (simp_all add: is_80x45_rows[OF assms] len)
  finally show ?thesis .
qed

lemma right_sum:
  assumes "is_80x45 img"
  shows "sum_list (map f (concat (map (\<lambda>row. drop (length row - 5) row) img))) =
         (\<Sum>y = 0..<45. \<Sum>x = 75..<80. f (img ! y ! x))"
proof -
  have len: "length img = 45" using assms by (simp add: is_80x45_def)
  have "sum_list (map f (concat (map (\<lambda>row. drop (length row - 5) row) img))) =
        (\<Sum>y = 0..<45. \<Sum>x = 0..<length (map (\<lambda>row. drop (length row - 5) row) img ! y).
            f (map (\<lambda>row. drop (length row - 5) row) img ! y ! x))"
    by (simp add: sum_list_concat_rows len)
  also have "\<dots> = (\<Sum>y = 0..<45. \<Sum>x = 0..<5. f (img ! y ! (x + 75)))"
    by (rule sum.cong) (simp_all add: is_80x45_rows[OF assms] len add.commute)
  also have "\<dots> = (\<Sum>y = 0..<45. \<Sum>x = 0 + 75..<5 + 75. f (img ! y ! x))"
    by (simp only: sum.shift_bounds_nat_ivl)
  finally show ?thesis by simp
qed

lemma edges_sum:
  assumes "is_80x45 img"
  shows "sum_list (map f (concat (take 5 img) @ concat (drop (length img - 5) img) @
            concat (map (take 5) img) @ concat (map (\<lambda>row. drop (length row - 5) row) img))) =
         band_sum f img"
  by (simp add: band_sum_def top_sum[OF assms] bottom_sum[OF assms] left_sum[OF assms]
      right_sum[OF assms])

lemma edges_length:
  assumes "is_80x45 img"
  shows "length (concat (take 5 img) @ concat (drop (length img - 5) img) @
            concat (map (take 5) img) @ concat (map (\<lambda>row. drop (length row - 5) row) img)) = 1250"
proof -
  have "sum_list (map (\<lambda>px. 1::int) (concat (take 5 img) @ concat (drop (length img - 5) img) @
            concat (map (take 5) img) @ concat (map (\<lambda>row. drop (length row - 5) row) img))) =
        band_sum (\<lambda>px. 1) img"
    by (rule edges_sum[OF assms])
  then show ?thesis by (simp add: band_sum_def sum_list_triv del: map_append)
qed

lemma channel_bounds:
  "0 \<le> red px" "red px \<le> 255" "0 \<le> green px" "green px \<le> 255" "0 \<le> blue px" "blue px \<le> 255"
proof -
  have "uint w \<le> 255" for w :: "8 word"
    using uint_lt2p[of w] by simp
  then show "0 \<le> red px" "red px \<le> 255" "0 \<le> green px" "green px \<le> 255"
      "0 \<le> blue px" "blue px \<le> 255"
    by (simp_all add: red_def green_def blue_def split: prod.splits)
qed

lemma sum_list_bounds:
  assumes "\<And>x. 0 \<le> f x \<and> f x \<le> (255::int)"
  shows "0 \<le> sum_list (map f xs) \<and> sum_list (map f xs) \<le> 255 * int (length xs)"
proof (induction xs)
  case Nil
  show ?case by simp
next
  case (Cons x xs)
  then show ?case using assms[of x] by simp
qed

lemma np_mean_int_edges:
  assumes "is_80x45 img" and "\<And>px. 0 \<le> f px \<and> f px \<le> (255::int)"
  shows "np_mean_int (map f (concat (take 5 img) @ concat (drop (length img - 5) img) @
            concat (map (take 5) img) @ concat (map (\<lambda>row. drop (length row - 5) row) img))) =
         py_int (rat_of_int (band_sum f img) / 1250)"
proof -
  define edges where "edges = concat (take 5 img) @ concat (drop (length img - 5) img) @
            concat (map (take 5) img) @ concat (map (\<lambda>row. drop (length row - 5) row) img)"
  have len: "length edges = 1250" unfolding edges_def by (rule edges_length[OF assms(1)])
  have sum: "sum_list (map f edges) = band_sum f img"
    unfolding edges_def by (rule edges_sum[OF assms(1)])
  have b: "0 \<le> band_sum f img" "band_sum f img \<le> 318750"
    using sum_list_bounds[of f edges, OF assms(2)] by (simp_all add: sum len)
  have "f64 (rat_of_int (band_sum f img)) = rat_of_int (band_sum f img)"
    using b by (intro f64_int) simp
  then have "np_mean_int (map f edges) =
        py_int (f64 (rat_of_int (band_sum f img) / rat_of_int 1250))"
    by (simp add: np_mean_int_def sum len)
  also have "\<dots> = band_sum f img div 1250"
    using b by (intro py_int_f64_div) simp_all
  also have "\<dots> = py_int (rat_of_int (band_sum f img) / 1250)"
  proof -
    have "\<lfloor>rat_of_int (band_sum f img) / rat_of_int 1250\<rfloor> = band_sum f img div 1250"
      by (rule floor_divide_of_int_eq)
    then show ?thesis using b by (simp add: py_int_def)
  qed
  finally show ?thesis unfolding edges_def .
qed

lemma extract_edge_average_eq_spec:
  assumes "is_80x45 img" and "resize img = img"
  shows "extract_edge_average resize img = spec_edge_average img"
  unfolding extract_edge_average_def Let_def spec_edge_average_def assms(2)
  by (simp only: np_mean_int_edges[OF assms(1)] channel_bounds simp_thms)

lemma is_80x45_update:
  assumes "is_80x45 img" and "y < 45"
  shows "is_80x45 (img[y := (img ! y)[x := px]])"
  using assms by (auto simp: is_80x45_def list_all_length nth_list_update)

lemma band_sum_interior:
  assumes "5 \<le> y" "y < 40" "5 \<le> x" "x < 75" and "length img = 45"
  shows "band_sum f (img[y := (img ! y)[x := px]]) = band_sum f img"
proof -
  have nth: "img[y := (img ! y)[x := px]] ! y' ! x' = img ! y' ! x'"
    if "y' < 45" and "y' < 5 \<or> 40 \<le> y' \<or> x' < 5 \<or> 75 \<le> x'" for y' x'
    using that assms by (auto simp: nth_list_update)
  show ?thesis unfolding band_sum_def
    by (intro arg_cong2[where f = "(+)"] sum.cong refl) (simp_all add: nth)
qed

lemma band_sum_uniform:
  "band_sum f (replicate 45 (replicate 80 px)) = 1250 * f px"
  unfolding band_sum_def by simp

lemma extract_edge_average_uniform:
  assumes "resize (replicate 45 (replicate 80 px)) = replicate 45 (replicate 80 px)"
  shows "extract_edge_average resize (replicate 45 (replicate 80 px)) = (red px, green px, blue px)"
proof -
  have "is_80x45 (replicate 45 (replicate 80 px))"
    by (simp add: is_80x45_def list_all_length)
  from extract_edge_average_eq_spec[of "replicate 45 (replicate 80 px)" resize, OF this assms]
  show ?thesis
    using channel_bounds[of px]
    by (simp add: spec_edge_average_def band_sum_uniform py_int_def)
qed

text \<open>
  Claim C4: for every image of 80 by 45 pixels (which the resampling returns as it is), the
  edge average is, per channel, the mean over the four border bands of thickness 5, each
  pixel counted once for every band it lies in, truncated to an integer; and replacing any
  interior pixel (rows 5 to 39, columns 5 to 74) leaves the result unchanged.
\<close>

theorem edge_average_is_band_mean:
  assumes "is_80x45 img"
    and "resize img = img"
    and "resize (img[y := (img ! y)[x := px]]) = img[y := (img ! y)[x := px]]"
    and "5 \<le> y" "y < 40" "5 \<le> x" "x < 75"
  shows "extract_edge_average resize img = spec_edge_average img \<and>
         extract_edge_average resize (img[y := (img ! y)[x := px]]) =
           extract_edge_average resize img"
proof -
  have a: "extract_edge_average resize img = spec_edge_average img"
    by (rule extract_edge_average_eq_spec[of img resize, OF assms(1,2)])
  have u: "is_80x45 (img[y := (img ! y)[x := px]])"
    using assms(1,5) by (intro is_80x45_update) simp_all
  have "extract_edge_average resize (img[y := (img ! y)[x := px]]) =
      spec_edge_average (img[y := (img ! y)[x := px]])"
    by (rule extract_edge_average_eq_spec[of "img[y := (img ! y)[x := px]]" resize, OF u assms(3)])
  also have "\<dots> = spec_edge_average img"
    using assms(1) by (simp add: spec_edge_average_def band_sum_interior[OF assms(4-7)] is_80x45_def)
  finally show ?thesis using a by simp
qed

theorem edge_average_is_band_mean_witness:
  "is_80x45 (replicate 45 (replicate 80 (10, 20, 30))) \<and>
   extract_edge_average id (replicate 45 (replicate 80 (10, 20, 30))) =
     spec_edge_average (replicate 45 (replicate 80 (10, 20, 30))) \<and>
   extract_edge_average id
     ((replicate 45 (replicate 80 (10, 20, 30)))
        [20 := (replicate 45 (replicate 80 (10, 20, 30)) ! 20)[40 := (200, 200, 200)]]) =
     extract_edge_average id (replicate 45 (replicate 80 (10, 20, 30)))"
  using edge_average_is_band_mean[of "replicate 45 (replicate 80 (10, 20, 30))" id 20 40
      "(200, 200, 200)"]
  by (simp add: is_80x45_def list_all_length)

section \<open>Enhancement\<close>

text \<open>
  Evaluating a rounding at a given number: the exponent is found by comparisons with powers
  of two, and the rest is arithmetic on numerals.
\<close>

lemma pow2_less_imp: "(2::rat) powi a < 2 powi b \<Longrightarrow> a < b"
proof (rule ccontr)
  assume lt: "(2::rat) powi a < 2 powi b" and "\<not> a < b"
  then have "(2::rat) powi b \<le> 2 powi a" by (intro power_int_increasing) auto
  with lt show False by simp
qed

lemma ilog2_unique:
  assumes "2 powi e \<le> \<bar>x\<bar>" and "\<bar>x\<bar> < 2 powi (e + 1)"
  shows "ilog2 x = e"
proof -
  have "(0::rat) < 2 powi e" by simp
  with assms(1) have "0 < \<bar>x\<bar>" by linarith
  then have nz: "x \<noteq> 0" by simp
  have "(2::rat) powi ilog2 x < 2 powi (e + 1)"
    using ilog2_lower[OF nz] assms(2) by simp
  then have a: "ilog2 x < e + 1" by (rule pow2_less_imp)
  have "(2::rat) powi e < 2 powi (ilog2 x + 1)"
    using ilog2_upper[OF nz] assms(1) by simp
  then have "e < ilog2 x + 1" by (rule pow2_less_imp)
  with a show ?thesis by simp
qed

lemma ilog2_tree:
  assumes "2 powi (- 16) \<le> \<bar>x\<bar>" and "\<bar>x\<bar> < 2 powi 16"
  shows "ilog2 x =
      (if \<bar>x\<bar> < 2 powi 0
        then (if \<bar>x\<bar> < 2 powi (- 8)
          then (if \<bar>x\<bar> < 2 powi (- 12)
            then (if \<bar>x\<bar> < 2 powi (- 14)
              then (if \<bar>x\<bar> < 2 powi (- 15)
                then - 16
                else - 15)
              else (if \<bar>x\<bar> < 2 powi (- 13)
                then - 14
                else - 13))
            else (if \<bar>x\<bar> < 2 powi (- 10)
              then (if \<bar>x\<bar> < 2 powi (- 11)
                then - 12
                else - 11)
              else (if \<bar>x\<bar> < 2 powi (- 9)
                then - 10
                else - 9)))
          else (if \<bar>x\<bar> < 2 powi (- 4)
            then (if \<bar>x\<bar> < 2 powi (- 6)
              then (if \<bar>x\<bar> < 2 powi (- 7)
                then - 8
                else - 7)
              else (if \<bar>x\<bar> < 2 powi (- 5)
                then - 6
                else - 5))
            else (if \<bar>x\<bar> < 2 powi (- 2)
              then (if \<bar>x\<bar> < 2 powi (- 3)
                then - 4
                else - 3)
              else (if \<bar>x\<bar> < 2 powi (- 1)
                then - 2
                else - 1))))
        else (if \<bar>x\<bar> < 2 powi 8
          then (if \<bar>x\<bar> < 2 powi 4
            then (if \<bar>x\<bar> < 2 powi 2
              then (if \<bar>x\<bar> < 2 powi 1
                then 0
                else 1)
              else (if \<bar>x\<bar> < 2 powi 3
                then 2
                else 3))
            else (if \<bar>x\<bar> < 2 powi 6
              then (if \<bar>x\<bar> < 2 powi 5
                then 4
                else 5)
              else (if \<bar>x\<bar> < 2 powi 7
                then 6
                else 7)))
          else (if \<bar>x\<bar> < 2 powi 12
            then (if \<bar>x\<bar> < 2 powi 10
              then (if \<bar>x\<bar> < 2 powi 9
                then 8
                else 9)
              else (if \<bar>x\<bar> < 2 powi 11
                then 10
                else 11))
            else (if \<bar>x\<bar> < 2 powi 14
              then (if \<bar>x\<bar> < 2 powi 13
                then 12
                else 13)
              else (if \<bar>x\<bar> < 2 powi 15
                then 14
                else 15)))))"
  using assms by (auto simp: not_less intro!: ilog2_unique)

lemma floor_rat_one_numeral: "\<lfloor>(1 :: rat) / numeral b\<rfloor> = 1 div numeral b"
  using floor_divide_of_int_eq[of 1 "numeral b", where ?'a = rat] by simp

lemma floor_rat_neg_numeral:
  "\<lfloor>- ((numeral a :: rat) / numeral b)\<rfloor> = (- numeral a) div numeral b"
  using floor_divide_of_int_eq[of "- numeral a" "numeral b", where ?'a = rat] by simp

lemmas fl_eval = fl_def round_at_def ilog2_tree round_half_even_def Let_def
  floor_rat_numeral floor_rat_one_numeral floor_rat_neg_numeral

lemma scalar_round_zero: "scalar_round m 0 = 0"
  by (cases m) (simp_all add: scalar_round_def f32_def f64_def fl_def)

lemma enhance_color_achromatic:
  "enhance_color m c c c sb vb =
     (achromatic_channel m c vb, achromatic_channel m c vb, achromatic_channel m c vb)"
proof -
  have z: "f32 0 = 0" by (simp add: f32_def fl_def)
  show ?thesis
    unfolding enhance_color_def achromatic_channel_def Let_def
    by (simp add: z scalar_round_zero)
qed

lemma f32_int: "\<bar>m\<bar> < 2 ^ 24 \<Longrightarrow> f32 (of_int m) = of_int m"
  unfolding f32_def by (rule fl_exact[where m = m and k = 0]) simp_all

lemma val_boost_legacy:
  "scalar_round Legacy val_boost_default = 2476979795053773 / 2251799813685248"
  by (simp add: scalar_round_def val_boost_default_def f64_def fl_eval)

lemma val_boost_weak: "scalar_round Weak val_boost_default = 9227469 / 8388608"
  by (simp add: scalar_round_def val_boost_default_def f32_def f64_def fl_eval)

lemma achromatic_weak_form:
  assumes "0 \<le> c" "c \<le> 255"
  shows "achromatic_channel Weak c val_boost_default =
     py_int (fl 24 (max 0 (min 1 (fl 24 (fl 24 (of_int c / 255) * (9227469 / 8388608)))) * 255))"
proof -
  have "f32 (of_int c) = of_int c" using assms by (intro f32_int) simp
  then show ?thesis
    unfolding achromatic_channel_def val_boost_weak
    by (simp add: scalar_round_def f32_def)
qed

lemma achromatic_legacy_form:
  assumes "0 \<le> c" "c \<le> 255"
  shows "achromatic_channel Legacy c val_boost_default =
     py_int (fl 53 (max 0 (min 1 (fl 53 (fl 24 (of_int c / 255) *
        (2476979795053773 / 2251799813685248)))) * 255))"
proof -
  have "f32 (of_int c) = of_int c" using assms by (intro f32_int) simp
  then show ?thesis
    unfolding achromatic_channel_def val_boost_legacy
    by (simp add: scalar_round_def f32_def f64_def)
qed

lemmas achromatic_eval = py_int_def spec_boosted_value_def fl_eval

text \<open>
  The achromatic channel at every value from 0 to 255. Each rounding moves a value of
  magnitude at most \<open>B\<close> by at most \<open>B / 2 ^ 24\<close>, so the product before the clamp, scaled
  to 255, stays within \<open>1 / 10000\<close> of \<open>11 * c / 10\<close>.
\<close>

lemma fl_abs_error:
  assumes "\<bar>x\<bar> \<le> B" and "24 \<le> p"
  shows "\<bar>fl p x - x\<bar> \<le> B / 2 ^ 24"
proof (cases "x = 0")
  case True
  then show ?thesis using assms(1) by (simp add: fl_def)
next
  case False
  have B: "0 \<le> B" using assms(1) by linarith
  have "(2::rat) powi (- int p) \<le> 2 powi (- 24)"
    using assms(2) by (intro power_int_increasing) simp_all
  then have pw: "(2::rat) powi (- int p) \<le> 1 / 2 ^ 24"
    by (simp add: power_int_minus field_simps)
  have "\<bar>fl p x - x\<bar> \<le> \<bar>x\<bar> * 2 powi (- int p)" by (rule fl_error[OF False])
  also have "\<dots> \<le> B * 2 powi (- int p)"
    using assms(1) by (intro mult_right_mono) simp_all
  also have "\<dots> \<le> B * (1 / 2 ^ 24)"
    using pw B by (intro mult_left_mono) simp_all
  finally show ?thesis by simp
qed

lemma abs_scale: "0 \<le> k \<Longrightarrow> \<bar>k * x\<bar> = k * \<bar>x :: rat\<bar>"
  by (simp add: abs_mult)

lemma scalar_round_fl: "\<exists>p. 24 \<le> p \<and> scalar_round m = fl p"
proof (cases m)
  case Legacy
  then have "24 \<le> (53::nat) \<and> scalar_round m = fl 53" by (simp add: scalar_round_def f64_def)
  then show ?thesis by blast
next
  case Weak
  then have "24 \<le> (24::nat) \<and> scalar_round m = fl 24" by (simp add: scalar_round_def f32_def)
  then show ?thesis by blast
qed

lemma val_boost_close: "\<bar>scalar_round m val_boost_default - 11 / 10\<bar> \<le> 1 / 2 ^ 24"
  by (cases m) (simp_all add: val_boost_legacy val_boost_weak)

lemma achromatic_pre_clamp:
  assumes "0 \<le> c" "c \<le> 255" and "24 \<le> p" "scalar_round m = fl p"
  shows "\<bar>fl p (f32 (f32 (of_int c) / 255) * scalar_round m val_boost_default) * 255
           - 11 * rat_of_int c / 10\<bar> \<le> 1 / 10000"
proof -
  define e :: rat where "e = 1 / 2 ^ 24"
  define t where "t = rat_of_int c / 255"
  define vb where "vb = scalar_round m val_boost_default"
  define x1 where "x1 = f32 t"
  define w where "w = x1 * vb"
  define y where "y = fl p w"
  have e: "0 < e" "e \<le> 1 / 10" by (simp_all add: e_def)
  have t: "0 \<le> t" "t \<le> 1" using assms(1,2) by (simp_all add: t_def)
  have c: "f32 (of_int c) = of_int c" using assms(1,2) by (intro f32_int) simp
  have x1: "\<bar>x1 - t\<bar> \<le> e"
    using fl_abs_error[of t 1 24] t by (simp add: x1_def f32_def e_def)
  have vb: "\<bar>vb - 11 / 10\<bar> \<le> e"
    unfolding vb_def e_def by (rule val_boost_close)
  have x1b: "\<bar>x1\<bar> \<le> 2" using x1 t e by linarith
  have "w - 11 / 10 * t = x1 * (vb - 11 / 10) + 11 / 10 * (x1 - t)"
    by (simp add: w_def field_simps)
  then have "\<bar>w - 11 / 10 * t\<bar> \<le> \<bar>x1 * (vb - 11 / 10)\<bar> + \<bar>11 / 10 * (x1 - t)\<bar>"
    by (simp only: abs_triangle_ineq)
  also have "\<bar>x1 * (vb - 11 / 10)\<bar> \<le> 2 * e"
  proof -
    have "\<bar>x1\<bar> * \<bar>vb - 11 / 10\<bar> \<le> 2 * e"
      using x1b vb by (intro mult_mono) simp_all
    then show ?thesis by (simp add: abs_mult)
  qed
  also have "\<bar>11 / 10 * (x1 - t)\<bar> \<le> 2 * e"
  proof -
    have "\<bar>11 / 10 * (x1 - t)\<bar> = 11 / 10 * \<bar>x1 - t\<bar>" by (rule abs_scale) simp
    also have "\<dots> \<le> 11 / 10 * e" using x1 by (intro mult_left_mono) simp_all
    also have "\<dots> \<le> 2 * e" using e by simp
    finally show ?thesis .
  qed
  finally have w: "\<bar>w - 11 / 10 * t\<bar> \<le> 4 * e" by simp
  have wb: "\<bar>w\<bar> \<le> 2" using w t e by linarith
  have y: "\<bar>y - w\<bar> \<le> 2 * e"
    using fl_abs_error[OF wb assms(3)] by (simp add: y_def e_def)
  have "\<bar>y - 11 / 10 * t\<bar> \<le> 6 * e" using y w by linarith
  then have "255 * \<bar>y - 11 / 10 * t\<bar> \<le> 255 * (6 * e)"
    by (intro mult_left_mono) simp_all
  moreover have "\<bar>255 * (y - 11 / 10 * t)\<bar> = 255 * \<bar>y - 11 / 10 * t\<bar>"
    by (rule abs_scale) simp
  ultimately have "\<bar>255 * (y - 11 / 10 * t)\<bar> \<le> 255 * (6 * e)"
    by (simp only:)
  moreover have "255 * (y - 11 / 10 * t) = y * 255 - 11 * rat_of_int c / 10"
    by (simp add: t_def field_simps)
  ultimately have "\<bar>y * 255 - 11 * rat_of_int c / 10\<bar> \<le> 1530 * e" by simp
  moreover have "1530 * e \<le> 1 / 10000" by (simp add: e_def)
  ultimately have "\<bar>y * 255 - 11 * rat_of_int c / 10\<bar> \<le> 1 / 10000" by (rule order_trans)
  then show ?thesis
    by (simp only: y_def w_def x1_def t_def vb_def c assms(4))
qed

text \<open>
  From 232 on the clamp gives 255. Below, when \<open>11 * c\<close> is not a multiple of 10 the
  exact value lies at least \<open>1 / 10\<close> from the nearest integer and the error bound decides
  the truncation.
\<close>

lemma achromatic_channel_unfold:
  assumes "0 \<le> c" "c \<le> 255" and "scalar_round m = fl p"
  shows "achromatic_channel m c val_boost_default =
     py_int (fl p (max 0 (min 1
        (fl p (f32 (f32 (of_int c) / 255) * scalar_round m val_boost_default))) * 255))"
  by (simp add: achromatic_channel_def assms(3))

lemma spec_boosted_value_clamped:
  assumes "232 \<le> c"
  shows "spec_boosted_value c = 255"
proof -
  have "rat_of_int 232 \<le> of_int c" using assms by (simp only: of_int_le_iff)
  then have "(255::rat) \<le> 11 / 10 * of_int c" by simp
  then show ?thesis by (simp add: spec_boosted_value_def py_int_def min_def)
qed

lemma achromatic_clamped:
  assumes "232 \<le> c" "c \<le> 255"
  shows "achromatic_channel m c val_boost_default = spec_boosted_value c"
proof -
  obtain p where p: "24 \<le> p" "scalar_round m = fl p" using scalar_round_fl by blast
  define y where "y = fl p (f32 (f32 (of_int c) / 255) * scalar_round m val_boost_default)"
  have c0: "0 \<le> c" using assms(1) by simp
  have pre: "\<bar>y * 255 - 11 * rat_of_int c / 10\<bar> \<le> 1 / 10000"
    unfolding y_def by (rule achromatic_pre_clamp[OF c0 assms(2) p])
  have "rat_of_int 232 \<le> of_int c" using assms(1) by (simp only: of_int_le_iff)
  then have "2552 / 10 \<le> 11 * rat_of_int c / 10" by simp
  with pre have "1 < y" by linarith
  then have v: "max 0 (min 1 y) = 1" by simp
  have "(2::int) ^ 24 \<le> 2 ^ p" using p(1) by (intro power_increasing) simp_all
  then have "\<bar>255 :: int\<bar> < 2 ^ p" by simp
  then have z: "fl p 255 = 255"
    by (intro fl_exact[where m = 255 and k = 0]) simp_all
  have "achromatic_channel m c val_boost_default = py_int (fl p (max 0 (min 1 y) * 255))"
    unfolding y_def by (rule achromatic_channel_unfold[OF c0 assms(2) p(2)])
  then show ?thesis
    by (simp add: v z py_int_def spec_boosted_value_clamped[OF assms(1)])
qed

lemma achromatic_between:
  assumes "0 \<le> c" "c \<le> 231" and "(11 * c) mod 10 \<noteq> 0"
  shows "achromatic_channel m c val_boost_default = spec_boosted_value c"
proof -
  obtain p where p: "24 \<le> p" "scalar_round m = fl p" using scalar_round_fl by blast
  define y where "y = fl p (f32 (f32 (of_int c) / 255) * scalar_round m val_boost_default)"
  define q r where "q = (11 * c) div 10" and "r = (11 * c) mod 10"
  define a where "a = 11 * rat_of_int c / 10"
  have c255: "c \<le> 255" using assms(2) by simp
  have r: "1 \<le> r" "r \<le> 9" using assms(3) by (simp_all add: r_def)
  have qr: "11 * c = q * 10 + r" by (simp add: q_def r_def)
  have q0: "0 \<le> q" using assms(1) by (simp add: q_def)
  have "rat_of_int (11 * c) = of_int (q * 10 + r)" by (simp only: qr)
  then have a: "a = of_int q + of_int r / 10" by (simp add: a_def)
  have "rat_of_int 1 \<le> of_int r" "rat_of_int r \<le> of_int 9"
    using r by (simp_all only: of_int_le_iff)
  then have ar: "of_int q + 1 / 10 \<le> a" "a \<le> of_int q + 9 / 10" by (simp_all add: a)
  have "rat_of_int c \<le> of_int 231" using assms(2) by (simp only: of_int_le_iff)
  then have ahi: "a \<le> 2541 / 10" by (simp add: a_def)
  have "(0::rat) \<le> of_int q" using q0 by (simp only: of_int_0_le_iff)
  with ar(1) have alo: "1 / 10 \<le> a" by linarith
  have pre: "\<bar>y * 255 - a\<bar> \<le> 1 / 10000"
    unfolding y_def a_def by (rule achromatic_pre_clamp[OF assms(1) c255 p])
  have y: "0 < y" "y < 1" using pre ahi alo by linarith+
  then have v: "max 0 (min 1 y) = y" by simp
  have "\<bar>y * 255\<bar> \<le> 255" using y by simp
  then have "\<bar>fl p (y * 255) - y * 255\<bar> \<le> 255 / 2 ^ 24"
    using p(1) by (rule fl_abs_error)
  moreover have "(255::rat) / 2 ^ 24 \<le> 1 / 10000" by simp
  ultimately have "\<bar>fl p (y * 255) - y * 255\<bar> \<le> 1 / 10000" by (rule order_trans)
  with pre have z: "\<bar>fl p (y * 255) - a\<bar> \<le> 2 / 10000" by linarith
  have zq: "of_int q < fl p (y * 255)" "fl p (y * 255) < of_int q + 1"
    using z ar by linarith+
  then have "\<lfloor>fl p (y * 255)\<rfloor> = q" by (intro floor_unique) simp_all
  moreover have "0 \<le> fl p (y * 255)" using zq(1) q0 by simp
  ultimately have k: "py_int (fl p (y * 255)) = q" by (simp add: py_int_def)
  have "\<lfloor>a\<rfloor> = q" using ar by (intro floor_unique) simp_all
  moreover have "min 255 (11 / 10 * rat_of_int c) = a" using ahi by (simp add: a_def min_def)
  moreover have "0 \<le> a" using alo by simp
  ultimately have s: "spec_boosted_value c = q" by (simp add: spec_boosted_value_def py_int_def)
  have "achromatic_channel m c val_boost_default = py_int (fl p (max 0 (min 1 y) * 255))"
    unfolding y_def by (rule achromatic_channel_unfold[OF assms(1) c255 p(2)])
  then show ?thesis by (simp add: v k s)
qed

text \<open>
  The multiples of 10 up to 230, where \<open>11 * c / 10\<close> is an integer, by evaluation under each
  of the two rounding rules.
\<close>

lemma achromatic_tens_weak:
  "list_all (\<lambda>k. achromatic_channel Weak (10 * k) val_boost_default = spec_boosted_value (10 * k))
     [0..23]"
  apply (simp add: upto_rec1)
  apply (intro conjI)
  apply (simp_all add: achromatic_weak_form achromatic_eval)
  done

lemma achromatic_tens_legacy:
  "list_all (\<lambda>k. achromatic_channel Legacy (10 * k) val_boost_default = spec_boosted_value (10 * k))
     [0..23]"
  apply (simp add: upto_rec1)
  apply (intro conjI)
  apply (simp_all add: achromatic_legacy_form achromatic_eval)
  done

lemma in_range: "list_all P [lo..hi] \<Longrightarrow> lo \<le> k \<and> k \<le> hi \<Longrightarrow> P k"
  by (simp add: list_all_iff)

lemma achromatic_channel_value:
  assumes "0 \<le> c" "c \<le> 255"
  shows "achromatic_channel m c val_boost_default = spec_boosted_value c"
proof -
  consider "232 \<le> c" | "c \<le> 231" "(11 * c) mod 10 \<noteq> 0" | "c \<le> 231" "(11 * c) mod 10 = 0"
    by linarith
  then show ?thesis
  proof cases
    case 1
    then show ?thesis using assms(2) by (rule achromatic_clamped)
  next
    case 2
    then show ?thesis using assms(1) by (intro achromatic_between)
  next
    case 3
    define k where "k = c div 10"
    have "c mod 10 = 0" using 3(2) by presburger
    then have c: "c = 10 * k" unfolding k_def by presburger
    have k: "0 \<le> k \<and> k \<le> 23" using assms(1) 3(1) unfolding k_def by presburger
    show ?thesis
    proof (cases m)
      case Weak
      show ?thesis unfolding Weak c by (rule in_range[OF achromatic_tens_weak k])
    next
      case Legacy
      show ?thesis unfolding Legacy c by (rule in_range[OF achromatic_tens_legacy k])
    qed
  qed
qed

text \<open>
  Claim C5: for every achromatic colour \<open>(c, c, c)\<close> with \<open>c\<close> in \<open>[0, 255]\<close>, enhancement
  returns an achromatic colour whose channels are \<open>c\<close> scaled by 1.1, clamped to 255 and
  converted to an integer; \<open>(128, 128, 128)\<close> gives \<open>(140, 140, 140)\<close>. This holds under both
  rounding rules.
\<close>

theorem achromatic_enhancement:
  assumes "0 \<le> c" "c \<le> 255"
  shows "enhance_color m c c c sat_boost_default val_boost_default =
           (spec_boosted_value c, spec_boosted_value c, spec_boosted_value c)"
  by (simp add: enhance_color_achromatic achromatic_channel_value[OF assms])

theorem achromatic_enhancement_witness:
  "enhance_color Legacy 128 128 128 sat_boost_default val_boost_default = (140, 140, 140)"
  using achromatic_enhancement[of 128 Legacy]
  by (simp add: spec_boosted_value_def py_int_def floor_rat_numeral)

lemma achromatic_values:
  "achromatic_channel Weak 96 val_boost_default = 105"
  "achromatic_channel Weak 128 val_boost_default = 140"
  "achromatic_channel Weak 140 val_boost_default = 154"
  "achromatic_channel Legacy 128 val_boost_default = 140"
  "achromatic_channel Legacy 140 val_boost_default = 154"
  by (simp_all add: achromatic_weak_form achromatic_legacy_form py_int_def fl_eval)

text \<open>
  Claim C8: enhancing twice is not the same as enhancing once: there is a colour with
  channels in \<open>[0, 255]\<close> whose enhancement changes when it is enhanced again. Mid grey
  \<open>(128, 128, 128)\<close> becomes \<open>(140, 140, 140)\<close> and then \<open>(154, 154, 154)\<close>, under both rounding
  rules.
\<close>

theorem enhancement_not_idempotent:
  "\<exists>r g b. 0 \<le> r \<and> r \<le> 255 \<and> 0 \<le> g \<and> g \<le> 255 \<and> 0 \<le> b \<and> b \<le> 255 \<and>
     enhanced m (enhanced m (r, g, b)) \<noteq> enhanced m (r, g, b)"
proof -
  have "enhanced m (enhanced m (128, 128, 128)) \<noteq> enhanced m (128, 128, 128)"
    by (cases m) (simp_all add: enhanced_def enhance_color_achromatic achromatic_values)
  then show ?thesis by (intro exI[of _ 128]) simp
qed

section \<open>The control loop, pass by pass\<close>

text \<open>The three ways through one pass of the loop.\<close>

lemma main_iteration_miss:
  "not_geometry (geometry inp) \<Longrightarrow>
   main_iteration m rz st inp =
     (st\<lparr>no_vlc_count := no_vlc_count st + 1\<rparr>,
      (if (no_vlc_count st + 1) mod 10 = 1 then [Waiting_notice] else []) @ [Sleep 1])"
  by (simp add: main_iteration_def Let_def)

lemma main_iteration_capture_failed:
  "\<not> not_geometry (geometry inp) \<Longrightarrow> capture inp = None \<Longrightarrow>
   main_iteration m rz st inp =
     (if 0 < no_vlc_count st then (st\<lparr>no_vlc_count := 0\<rparr>, [Detected_notice, Sleep frame_delay])
      else (st, [Sleep frame_delay]))"
  by (simp add: main_iteration_def Let_def)

lemma main_iteration_streams:
  assumes "\<not> not_geometry (geometry inp)" and "capture inp = Some img"
  shows "main_iteration m rz st inp =
     (case enhanced m (pre_enhancement rz (last_color st) img) of (r, g, b) \<Rightarrow>
        (st\<lparr>no_vlc_count := (if 0 < no_vlc_count st then 0 else no_vlc_count st),
            last_color := (r, g, b)\<rparr>,
         (if 0 < no_vlc_count st then [Detected_notice] else []) @
         (if send_ok inp then [Datagram r g b, Color_readout r g b] else [Send_failed_notice]) @
         [Sleep (max 0 (f64 (frame_delay - elapsed inp)))]))"
  using assms
  by (simp add: main_iteration_def Let_def enhanced_def pre_enhancement_def send_color_to_wiz_def
      split: prod.splits)

text \<open>
  Claim C2, as stated: a pass in which the window is not found prints the waiting notice if
  and only if the miss counter, after its increment, is a multiple of 10. It fails on the
  first miss: the counter becomes 1, which is no multiple of 10, and the notice is printed.
\<close>

theorem waiting_notice_counterexample:
  "Waiting_notice \<in> set (snd (main_iteration Weak id initial_state
      \<lparr>geometry = None, capture = None, send_ok = True, elapsed = 0\<rparr>)) \<and>
   no_vlc_count (fst (main_iteration Weak id initial_state
      \<lparr>geometry = None, capture = None, send_ok = True, elapsed = 0\<rparr>)) mod 10 \<noteq> 0"
  by (simp add: main_iteration_def not_geometry_def initial_state_def Let_def)

lemma main_loop_snoc:
  "main_loop m rz st (inps @ [inp]) =
     (let (st1, evs) = main_loop m rz st inps;
          (st2, ev) = main_iteration m rz st1 inp
      in (st2, evs @ ev))"
  by (induction inps arbitrary: st) (simp_all add: Let_def split: prod.splits)

lemma main_loop_snoc_fst:
  "fst (main_loop m rz st (inps @ [inp])) =
   fst (main_iteration m rz (fst (main_loop m rz st inps)) inp)"
  by (simp add: main_loop_snoc split: prod.splits)

lemma main_iteration_found_counter:
  assumes "\<not> not_geometry (geometry inp)"
  shows "no_vlc_count (fst (main_iteration m rz st inp)) =
         (if 0 < no_vlc_count st then 0 else no_vlc_count st)"
proof (cases "capture inp")
  case None
  then show ?thesis by (simp add: main_iteration_capture_failed[OF assms])
next
  case (Some img)
  then show ?thesis by (simp add: main_iteration_streams[OF assms] split: prod.splits)
qed

lemma consecutive_misses_snoc:
  "consecutive_misses (inps @ [inp]) =
     (if not_geometry (geometry inp) then consecutive_misses inps + 1 else 0)"
  by (simp add: consecutive_misses_def)

lemma consecutive_misses_nonneg: "0 \<le> consecutive_misses inps"
  by (simp add: consecutive_misses_def)

lemma counter_is_consecutive_misses:
  "no_vlc_count (fst (main_loop m rz initial_state inps)) = consecutive_misses inps"
proof (induction inps rule: rev_induct)
  case Nil
  show ?case by (simp add: initial_state_def consecutive_misses_def)
next
  case (snoc inp inps)
  show ?case
  proof (cases "not_geometry (geometry inp)")
    case True
    then show ?thesis
      using snoc
      by (simp add: main_loop_snoc_fst consecutive_misses_snoc main_iteration_miss)
  next
    case False
    have "no_vlc_count (fst (main_loop m rz initial_state (inps @ [inp]))) =
          no_vlc_count (fst (main_iteration m rz (fst (main_loop m rz initial_state inps)) inp))"
      by (simp add: main_loop_snoc_fst)
    also have "\<dots> = 0"
      using snoc consecutive_misses_nonneg[of inps]
      by (simp add: main_iteration_found_counter[OF False])
    finally show ?thesis using False by (simp add: consecutive_misses_snoc)
  qed
qed

text \<open>
  Claim C2, amended: in every run of the loop from its start, the miss counter is the number
  of consecutive misses so far (it starts at 0 and a pass that finds the window sets it back
  to 0), and a pass in which the window is not found prints the waiting notice if and only
  if the number of consecutive misses, this pass included, leaves remainder 1 modulo 10: on
  the 1st, 11th, 21st, ... consecutive miss.
\<close>

theorem waiting_notice_first_of_ten:
  assumes "not_geometry (geometry inp)"
  shows "no_vlc_count (fst (main_loop m rz initial_state (inps @ [inp]))) =
           consecutive_misses (inps @ [inp]) \<and>
         (Waiting_notice \<in>
            set (snd (main_iteration m rz (fst (main_loop m rz initial_state inps)) inp))
            \<longleftrightarrow> consecutive_misses (inps @ [inp]) mod 10 = 1)"
proof -
  have "consecutive_misses (inps @ [inp]) = no_vlc_count (fst (main_loop m rz initial_state inps)) + 1"
    using assms by (simp add: consecutive_misses_snoc counter_is_consecutive_misses)
  then show ?thesis
    by (simp add: counter_is_consecutive_misses main_iteration_miss[OF assms])
qed

theorem waiting_notice_first_of_ten_witness:
  "not_geometry (geometry \<lparr>geometry = None, capture = None, send_ok = True, elapsed = 0\<rparr>) \<and>
   consecutive_misses
     [\<lparr>geometry = None, capture = None, send_ok = True, elapsed = 0\<rparr>,
      \<lparr>geometry = None, capture = None, send_ok = True, elapsed = 0\<rparr>,
      \<lparr>geometry = Some ''0,0 1920x1080'', capture = None, send_ok = True, elapsed = 0\<rparr>,
      \<lparr>geometry = None, capture = None, send_ok = True, elapsed = 0\<rparr>] = 1 \<and>
   no_vlc_count (fst (main_loop Weak id initial_state
     [\<lparr>geometry = None, capture = None, send_ok = True, elapsed = 0\<rparr>,
      \<lparr>geometry = None, capture = None, send_ok = True, elapsed = 0\<rparr>,
      \<lparr>geometry = Some ''0,0 1920x1080'', capture = None, send_ok = True, elapsed = 0\<rparr>,
      \<lparr>geometry = None, capture = None, send_ok = True, elapsed = 0\<rparr>])) = 1 \<and>
   Waiting_notice \<in> set (snd (main_iteration Weak id (fst (main_loop Weak id initial_state
     [\<lparr>geometry = None, capture = None, send_ok = True, elapsed = 0\<rparr>,
      \<lparr>geometry = None, capture = None, send_ok = True, elapsed = 0\<rparr>,
      \<lparr>geometry = Some ''0,0 1920x1080'', capture = None, send_ok = True, elapsed = 0\<rparr>]))
     \<lparr>geometry = None, capture = None, send_ok = True, elapsed = 0\<rparr>))"
  using waiting_notice_first_of_ten[of
      "\<lparr>geometry = None, capture = None, send_ok = True, elapsed = 0\<rparr>" Weak id
      "[\<lparr>geometry = None, capture = None, send_ok = True, elapsed = 0\<rparr>,
        \<lparr>geometry = None, capture = None, send_ok = True, elapsed = 0\<rparr>,
        \<lparr>geometry = Some ''0,0 1920x1080'', capture = None, send_ok = True, elapsed = 0\<rparr>]"]
  by (simp add: consecutive_misses_def not_geometry_def)

text \<open>
  Claim C6: in a pass whose capture succeeds, the enhanced colour becomes the previous
  colour whether the send to the bulb succeeds or fails; the state after the pass is the
  same in both runs.
\<close>

theorem send_outcome_does_not_change_state:
  assumes "\<not> not_geometry (geometry inp)" and "capture inp = Some img"
  shows "fst (main_iteration m rz st (inp\<lparr>send_ok := True\<rparr>)) =
         fst (main_iteration m rz st (inp\<lparr>send_ok := False\<rparr>)) \<and>
         last_color (fst (main_iteration m rz st (inp\<lparr>send_ok := ok\<rparr>))) =
         enhanced m (pre_enhancement rz (last_color st) img)"
  using assms by (simp add: main_iteration_streams split: prod.splits)

theorem send_outcome_does_not_change_state_witness:
  "\<not> not_geometry (geometry \<lparr>geometry = Some ''0,0 1920x1080'',
        capture = Some (replicate 45 (replicate 80 (0, 0, 255))), send_ok = True, elapsed = 0\<rparr>) \<and>
   fst (main_iteration Weak id initial_state
      \<lparr>geometry = Some ''0,0 1920x1080'',
        capture = Some (replicate 45 (replicate 80 (0, 0, 255))), send_ok = True, elapsed = 0\<rparr>) =
   fst (main_iteration Weak id initial_state
      \<lparr>geometry = Some ''0,0 1920x1080'',
        capture = Some (replicate 45 (replicate 80 (0, 0, 255))), send_ok = False, elapsed = 0\<rparr>) \<and>
   last_color (fst (main_iteration Weak id initial_state
      \<lparr>geometry = Some ''0,0 1920x1080'',
        capture = Some (replicate 45 (replicate 80 (0, 0, 255))), send_ok = False, elapsed = 0\<rparr>)) =
   enhanced Weak (pre_enhancement id (0, 0, 0) (replicate 45 (replicate 80 (0, 0, 255))))"
  using send_outcome_does_not_change_state[of
      "\<lparr>geometry = Some ''0,0 1920x1080'',
        capture = Some (replicate 45 (replicate 80 (0, 0, 255))), send_ok = True, elapsed = 0\<rparr>"
      "replicate 45 (replicate 80 (0, 0, 255))" Weak id initial_state False]
  by (simp add: not_geometry_def initial_state_def)

text \<open>
  Claim C7: when the capture fails, the pass sends nothing to the bulb, leaves the previous
  colour as it was, and only sleeps one frame interval (after the detected notice, if the
  window has just reappeared). No colour transform takes part: the outcome is the same
  whatever the resampling and the rounding rule are.
\<close>

theorem capture_failure_skips_cycle:
  assumes "\<not> not_geometry (geometry inp)" and "capture inp = None"
  shows "last_color (fst (main_iteration m rz st inp)) = last_color st \<and>
         snd (main_iteration m rz st inp) =
           (if 0 < no_vlc_count st then [Detected_notice] else []) @ [Sleep frame_delay] \<and>
         main_iteration m' rz' st inp = main_iteration m rz st inp"
  by (simp add: main_iteration_capture_failed[OF assms])

theorem capture_failure_skips_cycle_witness:
  "\<not> not_geometry (geometry \<lparr>geometry = Some ''0,0 1920x1080'', capture = None,
        send_ok = True, elapsed = 0\<rparr>) \<and>
   last_color (fst (main_iteration Weak id \<lparr>last_color = (10, 20, 30), no_vlc_count = 3\<rparr>
      \<lparr>geometry = Some ''0,0 1920x1080'', capture = None, send_ok = True, elapsed = 0\<rparr>)) =
     (10, 20, 30) \<and>
   snd (main_iteration Weak id \<lparr>last_color = (10, 20, 30), no_vlc_count = 3\<rparr>
      \<lparr>geometry = Some ''0,0 1920x1080'', capture = None, send_ok = True, elapsed = 0\<rparr>) =
     [Detected_notice, Sleep frame_delay]"
  using capture_failure_skips_cycle[of
      "\<lparr>geometry = Some ''0,0 1920x1080'', capture = None, send_ok = True, elapsed = 0\<rparr>"
      Weak id "\<lparr>last_color = (10, 20, 30), no_vlc_count = 3\<rparr>" Legacy id]
  by (simp add: not_geometry_def)

text \<open>The previous colour along a run.\<close>

lemma main_loop_cons_fst:
  "fst (main_loop m rz st (inp # inps)) = fst (main_loop m rz (fst (main_iteration m rz st inp)) inps)"
  by (simp add: Let_def split: prod.splits)

lemma main_iteration_color:
  "last_color (fst (main_iteration m rz st inp)) =
     (if not_geometry (geometry inp) then last_color st
      else case capture inp of None \<Rightarrow> last_color st
           | Some img \<Rightarrow> cycle_color m rz (last_color st) img)"
proof (cases "not_geometry (geometry inp)")
  case True
  then show ?thesis by (simp add: main_iteration_miss)
next
  case False
  show ?thesis
  proof (cases "capture inp")
    case None
    then show ?thesis using False by (simp add: main_iteration_capture_failed)
  next
    case (Some img)
    then show ?thesis using False
      by (simp add: main_iteration_streams[OF False Some] cycle_color_def pre_enhancement_def
          split: prod.splits)
  qed
qed

lemma main_loop_color:
  "last_color (fst (main_loop m rz st inps)) = foldl (cycle_color m rz) (last_color st) (frames inps)"
proof (induction inps arbitrary: st)
  case Nil
  show ?case by (simp add: frames_def)
next
  case (Cons inp inps)
  have "frames (inp # inps) = frames [inp] @ frames inps" by (simp add: frames_def)
  then show ?case
    by (simp only: main_loop_cons_fst Cons foldl_append main_iteration_color)
       (simp add: frames_def split: option.splits)
qed

text \<open>
  Claim C1, amended: in every run of the loop from its start, the previous colour is what
  results from black by one step for each frame taken, in order: the edge average of the
  frame (the raw colour) is smoothed against the previous colour, the smoothed colour is
  enhanced once, and the enhanced colour is stored as the previous colour, against which the
  next frame is smoothed. Passes without a frame leave it as it is.
\<close>

theorem previous_color_is_enhanced_output:
  "last_color (fst (main_loop m rz initial_state inps)) =
     foldl (cycle_color m rz) (0, 0, 0) (frames inps)"
  by (simp add: main_loop_color initial_state_def)

theorem previous_color_is_enhanced_output_witness:
  "last_color (fst (main_loop Weak id initial_state
     [\<lparr>geometry = None, capture = None, send_ok = True, elapsed = 0\<rparr>,
      \<lparr>geometry = Some ''0,0 1920x1080'',
        capture = Some (replicate 45 (replicate 80 (128, 128, 128))),
        send_ok = False, elapsed = 0\<rparr>,
      \<lparr>geometry = Some ''0,0 1920x1080'', capture = None, send_ok = True, elapsed = 0\<rparr>])) =
   cycle_color Weak id (0, 0, 0) (replicate 45 (replicate 80 (128, 128, 128)))"
  using previous_color_is_enhanced_output[of Weak id
     "[\<lparr>geometry = None, capture = None, send_ok = True, elapsed = 0\<rparr>,
      \<lparr>geometry = Some ''0,0 1920x1080'',
        capture = Some (replicate 45 (replicate 80 (128, 128, 128))),
        send_ok = False, elapsed = 0\<rparr>,
      \<lparr>geometry = Some ''0,0 1920x1080'', capture = None, send_ok = True, elapsed = 0\<rparr>]"]
  by (simp add: frames_def not_geometry_def)

text \<open>
  Claim C1, as stated: the enhanced colour is never stored as the previous colour; the
  previous colour is the colour before enhancement. It fails on the first frame: with an
  all-grey frame \<open>(128, 128, 128)\<close> and previous colour black, the smoothed colour is
  \<open>(96, 96, 96)\<close>, and what the pass stores as the previous colour is its enhancement
  \<open>(105, 105, 105)\<close>.
\<close>

theorem enhanced_color_stored_counterexample:
  "last_color (fst (main_iteration Weak id initial_state
      \<lparr>geometry = Some ''0,0 1920x1080'',
        capture = Some (replicate 45 (replicate 80 (128, 128, 128))),
        send_ok = True, elapsed = 0\<rparr>)) = (105, 105, 105) \<and>
   pre_enhancement id (last_color initial_state) (replicate 45 (replicate 80 (128, 128, 128))) =
     (96, 96, 96)"
proof -
  have avg: "extract_edge_average id (replicate 45 (replicate 80 (128, 128, 128))) = (128, 128, 128)"
    by (simp add: extract_edge_average_uniform red_def green_def blue_def)
  have pre: "pre_enhancement id (0, 0, 0) (replicate 45 (replicate 80 (128, 128, 128))) = (96, 96, 96)"
    by (simp add: pre_enhancement_def avg smooth_color_def blend_three_quarters)
  have enh: "enhanced Weak (96, 96, 96) = (105, 105, 105)"
    by (simp add: enhanced_def enhance_color_achromatic achromatic_values)
  show ?thesis
    by (simp add: main_iteration_color cycle_color_def avg enh initial_state_def pre
        pre[unfolded pre_enhancement_def avg] not_geometry_def)
qed

section \<open>The discovery script, reply by reply\<close>






end
